theory Spec2Isabelle
  imports Complex_Main "HOL-Library.AList" "HOL-Library.Multiset"
begin

section \<open>Python values and exceptions\<close>

text \<open>
  The exceptions the modelled functions raise. A \<open>ValueError\<close> carries its message; a
  \<open>KeyError\<close> carries the missing key when the key is a string, and the empty string
  otherwise. A function that can raise returns \<open>exn + 'a\<close>, \<open>Inl\<close> the exception.
  \<open>SchemaError\<close> and \<open>InvalidArgument\<close> are the construction-time errors the spec names;
  only the parts modelled from the spec raise them.
\<close>

datatype exn =
    ValueError string
  | KeyError string
  | IndexError
  | AssertionError
  | SchemaError
  | InvalidArgument

section \<open>Materialized data: \<open>EventSet\<close> and \<open>IndexData\<close>\<close>

text \<open>
  An element of a float64 buffer: \<open>np.nan\<close> or a number. The arithmetic on numbers is
  that of the carrier \<open>'a\<close>; the development never relies on more than the operations
  named in the sort constraints.
\<close>

datatype 'a fval = NaN | Val 'a

text \<open>
  Modelled from the spec: \<open>IndexData\<close> and \<open>EventSet\<close> of
  \<open>temporian/implementation/numpy/data/event_set.py\<close>, which is not among the sources.
  \<open>IndexData(features, timestamps)\<close> holds one group's feature buffers and timestamps;
  an \<open>EventSet\<close> is a mapping from index key to \<open>IndexData\<close> with the feature names, the
  index names and the timestamp semantics. The mapping is a Python dictionary: an
  association list in insertion order, each key once. \<open>iterindex()\<close> yields its items,
  \<open>data[k]\<close> raises \<open>KeyError\<close> on an absent key, and \<open>event_set[k] = v\<close> stores a
  group (\<open>AList.update\<close>: overwrite in place, or append).
\<close>

record 'a IndexData =
  features :: "'a fval list list"
  timestamps :: "'a list"

record ('k, 'a) EventSet =
  data :: "('k \<times> 'a IndexData) list"
  feature_names :: "string list"
  index_names :: "string list"
  is_unix_timestamp :: bool

definition iterindex :: "('k, 'a) EventSet \<Rightarrow> ('k \<times> 'a IndexData) list" where
  "iterindex es = data es"

definition getitem :: "('k \<times> 'v) list \<Rightarrow> 'k \<Rightarrow> exn + 'v" where
  "getitem d k = (case map_of d k of None \<Rightarrow> Inl (KeyError []) | Some v \<Rightarrow> Inr v)"

definition setitem :: "('k, 'a) EventSet \<Rightarrow> 'k \<Rightarrow> 'a IndexData \<Rightarrow> ('k, 'a) EventSet" where
  "setitem es k v = es\<lparr>data := AList.update k v (data es)\<rparr>"

section \<open>The since-last operator (\<open>implementation/numpy/operators/since_last.py\<close>)\<close>

text \<open>\<open>np.diff\<close> on a flat array: \<open>a[1:] - a[:-1]\<close>.\<close>

fun np_diff :: "'a::minus list \<Rightarrow> 'a list" where
  "np_diff (x # y # ys) = (y - x) # np_diff (y # ys)"
| "np_diff [x] = []"
| "np_diff [] = []"

text \<open>
  Modelled from the spec: \<open>operators_cc.since_last\<close>, the native extension, which is not
  among the sources. For each query timestamp \<open>t\<close> it gives the time elapsed since the
  most recent input timestamp \<open>t' \<le> t\<close>, and the missing value when there is none; it
  walks the ascending input with a single forward pointer. \<open>prev\<close> is the last input
  timestamp the pointer has passed.
\<close>

fun since_last_walk :: "'a option \<Rightarrow> 'a::{linorder,minus} list \<Rightarrow> 'a list \<Rightarrow> 'a fval list" where
  "since_last_walk prev ins [] = []"
| "since_last_walk prev [] (t # ts) =
     (case prev of None \<Rightarrow> NaN | Some p \<Rightarrow> Val (t - p)) # since_last_walk prev [] ts"
| "since_last_walk prev (i # ins) (t # ts) =
     (if i \<le> t then since_last_walk (Some i) ins (t # ts)
      else (case prev of None \<Rightarrow> NaN | Some p \<Rightarrow> Val (t - p)) # since_last_walk prev (i # ins) ts)"

definition since_last_cc :: "'a::{linorder,minus} list \<Rightarrow> 'a list \<Rightarrow> 'a fval list" where
  "since_last_cc ins ts = since_last_walk None ins ts"

text \<open>
  The body of the loop of \<open>SinceLastNumpyImplementation.__call__\<close> for one item of
  \<open>input.iterindex()\<close>. The native function is the parameter \<open>cc\<close>.
\<close>

definition since_last_group ::
  "('a list \<Rightarrow> 'a list \<Rightarrow> 'a fval list) \<Rightarrow> ('k, 'a) EventSet option \<Rightarrow>
   'k \<Rightarrow> 'a::minus IndexData \<Rightarrow> exn + 'a IndexData" where
  "since_last_group cc sampling index_key index_data =
     (case sampling of
        Some s \<Rightarrow>
          (case getitem (data s) index_key of
             Inl e \<Rightarrow> Inl e
           | Inr sd \<Rightarrow>
               Inr \<lparr>features = [cc (timestamps index_data) (timestamps sd)],
                    timestamps = timestamps sd\<rparr>)
      | None \<Rightarrow>
          Inr \<lparr>features = [NaN # map Val (np_diff (timestamps index_data))],
               timestamps = timestamps index_data\<rparr>)"

fun since_last_loop ::
  "('a list \<Rightarrow> 'a list \<Rightarrow> 'a fval list) \<Rightarrow> ('k, 'a) EventSet option \<Rightarrow>
   ('k \<times> 'a::minus IndexData) list \<Rightarrow> ('k, 'a) EventSet \<Rightarrow> exn + ('k, 'a) EventSet" where
  "since_last_loop cc sampling [] output_event = Inr output_event"
| "since_last_loop cc sampling ((index_key, index_data) # rest) output_event =
     (case since_last_group cc sampling index_key index_data of
        Inl e \<Rightarrow> Inl e
      | Inr v \<Rightarrow> since_last_loop cc sampling rest (setitem output_event index_key v))"

text \<open>
  \<open>SinceLastNumpyImplementation.__call__\<close>. \<open>has_sampling\<close> is the attribute of the
  operator the implementation was built for. The result is the dictionary
  \<open>{"output": output_event}\<close>.
\<close>

definition since_last_call ::
  "('a list \<Rightarrow> 'a list \<Rightarrow> 'a fval list) \<Rightarrow> bool \<Rightarrow> ('k, 'a::minus) EventSet \<Rightarrow>
   ('k, 'a) EventSet option \<Rightarrow> exn + (string \<times> ('k, 'a) EventSet) list" where
  "since_last_call cc has_sampling input sampling =
     (if has_sampling \<noteq> (sampling \<noteq> None) then Inl AssertionError
      else
        (case since_last_loop cc sampling (iterindex input)
                \<lparr>data = [], feature_names = [''since_last''],
                 index_names = index_names input,
                 is_unix_timestamp = is_unix_timestamp input\<rparr> of
           Inl e \<Rightarrow> Inl e
         | Inr output_event \<Rightarrow> Inr [(''output'', output_event)]))"

text \<open>The output of group \<open>k\<close> of a call: \<open>None\<close> when the call raised or has no such group.\<close>

definition group_output ::
  "exn + (string \<times> ('k, 'a) EventSet) list \<Rightarrow> 'k \<Rightarrow> 'a IndexData option" where
  "group_output r k =
     (case r of
        Inl e \<Rightarrow> None
      | Inr outs \<Rightarrow> (case map_of outs ''output'' of None \<Rightarrow> None | Some es \<Rightarrow> map_of (data es) k))"

subsection \<open>Sample event sets\<close>

text \<open>
  Small event sets indexed by a \<open>user\<close> level, with integer timestamps, on which the
  theorems below are instantiated.
\<close>

definition group_u1 :: "int IndexData" where
  "group_u1 = \<lparr>features = [], timestamps = [10, 12, 15]\<rparr>"

definition events_u1 :: "(string list, int) EventSet" where
  "events_u1 = \<lparr>data = [([''u1''], group_u1)],
     feature_names = [], index_names = [''user''], is_unix_timestamp = False\<rparr>"

definition events_u2_u1 :: "(string list, int) EventSet" where
  "events_u2_u1 = \<lparr>data = [([''u2''], \<lparr>features = [], timestamps = [3]\<rparr>), ([''u1''], group_u1)],
     feature_names = [], index_names = [''user''], is_unix_timestamp = False\<rparr>"

definition sampling_u1 :: "(string list, int) EventSet" where
  "sampling_u1 = \<lparr>data = [([''u1''], \<lparr>features = [], timestamps = [9, 12, 20]\<rparr>)],
     feature_names = [], index_names = [''user''], is_unix_timestamp = False\<rparr>"

definition sampling_u1_u2 :: "(string list, int) EventSet" where
  "sampling_u1_u2 = \<lparr>data = [([''u1''], \<lparr>features = [], timestamps = [9, 12, 20]\<rparr>),
                            ([''u2''], \<lparr>features = [], timestamps = [4, 5]\<rparr>)],
     feature_names = [], index_names = [''user''], is_unix_timestamp = False\<rparr>"

definition sampling_u2 :: "(string list, int) EventSet" where
  "sampling_u2 = \<lparr>data = [([''u2''], \<lparr>features = [], timestamps = [4, 5]\<rparr>)],
     feature_names = [], index_names = [''user''], is_unix_timestamp = False\<rparr>"

definition events_none :: "(string list, int) EventSet" where
  "events_none = \<lparr>data = [],
     feature_names = [], index_names = [''user''], is_unix_timestamp = False\<rparr>"

lemmas example_events =
  group_u1_def events_u1_def events_u2_u1_def sampling_u1_def sampling_u1_u2_def sampling_u2_def
  events_none_def

section \<open>The schema graph\<close>

text \<open>
  The dtypes of \<open>temporian.core.data.dtype\<close>, as \<open>implementation/numpy/data/event.py\<close>
  and \<open>core/operators/calendar/base.py\<close> name them.
\<close>

datatype DType = FLOAT32 | FLOAT64 | INT32 | INT64 | STRING

text \<open>
  Modelled from the spec: \<open>IndexLevel\<close>, \<open>Sampling\<close>, \<open>Feature\<close> and \<open>Event\<close> of
  \<open>temporian/core/data\<close>, which are not among the sources; the fields are those the
  constructor calls of \<open>rename.py\<close> and \<open>calendar/base.py\<close> pass. The descriptors are
  immutable, so a reference to a \<open>Sampling\<close> object is modelled as the object's identity
  (\<open>sampling_id\<close>, given at allocation) together with its contents: two references are to
  the same object exactly when the identities agree. A creator is the identity of the
  operator object. Allocation takes the next free identity from a counter that the
  constructors thread through.
\<close>

type_synonym obj_id = nat

record IndexLevel =
  level_name :: string
  level_dtype :: DType

record Sampling =
  sampling_id :: obj_id
  index_levels :: "IndexLevel list"
  sampling_creator :: "obj_id option"
  sampling_is_unix_timestamp :: bool

record Feature =
  feature_name :: string
  feature_dtype :: DType
  feature_sampling :: Sampling
  feature_creator :: "obj_id option"

record Event =
  event_features :: "Feature list"
  event_sampling :: Sampling
  event_creator :: "obj_id option"


text \<open>
  Values of a Python dictionary passed as a rename map, and an operator attribute.
  \<open>Dict[str, str]\<close> is an annotation only: \<open>check_rename_dict\<close> tests the values at run
  time, so a value may be something other than a string.
\<close>

datatype pyval = PyStr string | PyInt int | PyNone


text \<open>Truth value of a Python value: the empty string, zero and \<open>None\<close> are false.\<close>

fun truthy :: "pyval \<Rightarrow> bool" where
  "truthy (PyStr s) = (s \<noteq> [])"
| "truthy (PyInt n) = (n \<noteq> 0)"
| "truthy PyNone = False"


text \<open>
  Modelled from the spec: the \<open>Operator\<close> base class of \<open>core/operators/base.py\<close>, which
  is not among the sources: the inputs, outputs and attributes of an operator, each a
  mapping by name, filled by \<open>add_input\<close>, \<open>add_output\<close> and \<open>add_attribute\<close>. An
  attribute is a string-to-string mapping (\<open>MAP_STR_STR\<close> in \<open>build_op_definition\<close>) or a
  number. The
  inherited \<open>check()\<close> is a parameter of the constructors below: it gives the exception it
  raises, or \<open>None\<close> when it accepts the operator.
\<close>

datatype attribute = MAP_STR_STR "(string \<times> string) list" | FLOAT_64 real

record Operator =
  operator_id :: obj_id
  attributes :: "(string \<times> attribute) list"
  inputs :: "(string \<times> Event) list"
  outputs :: "(string \<times> Event) list"

definition Operator_init :: "obj_id \<Rightarrow> Operator" where
  "Operator_init self = \<lparr>operator_id = self, attributes = [], inputs = [], outputs = []\<rparr>"

definition add_attribute :: "string \<Rightarrow> attribute \<Rightarrow> Operator \<Rightarrow> Operator" where
  "add_attribute key v op = op\<lparr>attributes := AList.update key v (attributes op)\<rparr>"

definition add_input :: "string \<Rightarrow> Event \<Rightarrow> Operator \<Rightarrow> Operator" where
  "add_input key event op = op\<lparr>inputs := AList.update key event (inputs op)\<rparr>"

definition add_output :: "string \<Rightarrow> Event \<Rightarrow> Operator \<Rightarrow> Operator" where
  "add_output key event op = op\<lparr>outputs := AList.update key event (outputs op)\<rparr>"

section \<open>The rename operator (\<open>core/operators/rename.py\<close>)\<close>












section \<open>The calendar operators (\<open>core/operators/calendar/base.py\<close>)\<close>

text \<open>
  \<open>BaseCalendarOperator.__init__\<close>. \<open>output_feature_name\<close> is the abstract class property
  a concrete calendar operator defines. \<open>sampling.sampling()\<close> is the accessor of the
  node's sampling.
\<close>

definition BaseCalendarOperator ::
  "(Operator \<Rightarrow> exn option) \<Rightarrow> string \<Rightarrow> obj_id \<Rightarrow> Event \<Rightarrow> exn + (Operator \<times> obj_id)" where
  "BaseCalendarOperator check output_feature_name next_id sampling =
     (let self = next_id;
          op = add_input ''sampling'' sampling (Operator_init self);
          output_feature =
            \<lparr>feature_name = output_feature_name, feature_dtype = INT32,
             feature_sampling = event_sampling sampling, feature_creator = Some self\<rparr>;
          op = add_output ''event''
                 \<lparr>event_features = [output_feature], event_sampling = event_sampling sampling,
                  event_creator = Some self\<rparr> op
      in case check op of Some e \<Rightarrow> Inl e | None \<Rightarrow> Inr (op, Suc self))"

section \<open>Materialized events of the numpy backend (\<open>implementation/numpy/data/event.py\<close>)\<close>








section \<open>Auxiliary notions of the statements, and sample data\<close>




text \<open>A sample node with two features and two index levels, and a \<open>check()\<close> that accepts.\<close>

definition level_user :: IndexLevel where
  "level_user = \<lparr>level_name = ''user'', level_dtype = STRING\<rparr>"

definition level_shop :: IndexLevel where
  "level_shop = \<lparr>level_name = ''shop'', level_dtype = INT64\<rparr>"

definition sampling_users :: Sampling where
  "sampling_users =
     \<lparr>sampling_id = 0, index_levels = [level_user, level_shop], sampling_creator = None,
      sampling_is_unix_timestamp = True\<rparr>"

definition event_ab :: Event where
  "event_ab =
     \<lparr>event_features =
        [\<lparr>feature_name = ''a'', feature_dtype = FLOAT64, feature_sampling = sampling_users,
          feature_creator = None\<rparr>,
         \<lparr>feature_name = ''c'', feature_dtype = INT32, feature_sampling = sampling_users,
          feature_creator = None\<rparr>],
      event_sampling = sampling_users, event_creator = None\<rparr>"

definition check_accepts :: "Operator \<Rightarrow> exn option" where
  "check_accepts op = None"

lemmas example_schema = level_user_def level_shop_def sampling_users_def event_ab_def






section \<open>The moving-minimum operator (\<open>core/operators/window/moving_min.py\<close>)\<close>

text \<open>\<open>MovingMinOperator.get_feature_dtype\<close>.\<close>

definition get_feature_dtype :: "Feature \<Rightarrow> DType" where
  "get_feature_dtype feature = feature_dtype feature"

text \<open>
  Modelled from the spec: \<open>BaseWindowOperator.__init__\<close> of
  \<open>core/operators/window/base.py\<close>, which is not among the sources. The window length
  must be positive (\<open>InvalidArgument\<close> otherwise); the index levels of \<open>sampling\<close>, when
  given, must be those of \<open>input\<close> (\<open>SchemaError\<close> otherwise); the output has one feature
  per input feature, with the dtype the subclass gives through \<open>get_feature_dtype\<close>, and
  its sampling is that of \<open>sampling\<close> if given and that of \<open>input\<close> otherwise. The spec
  gives no rule for the names of the output features; they are carried over. The keys
  \<open>input\<close>, \<open>window_length\<close>, \<open>sampling\<close> and \<open>output\<close> are those \<open>moving_min\<close> uses.
\<close>

definition BaseWindowOperator ::
  "(Operator \<Rightarrow> exn option) \<Rightarrow> (Feature \<Rightarrow> DType) \<Rightarrow> obj_id \<Rightarrow> Event \<Rightarrow> real \<Rightarrow>
   Event option \<Rightarrow> exn + (Operator \<times> obj_id)" where
  "BaseWindowOperator check feature_dtype_of next_id input window_length sampling =
     (let self = next_id in
      if window_length \<le> 0 then Inl InvalidArgument
      else if (case sampling of
                 None \<Rightarrow> False
               | Some s \<Rightarrow> index_levels (event_sampling s) \<noteq> index_levels (event_sampling input))
      then Inl SchemaError
      else
        (let effective_sampling =
               (case sampling of None \<Rightarrow> event_sampling input | Some s \<Rightarrow> event_sampling s);
             op = add_attribute ''window_length'' (FLOAT_64 window_length) (Operator_init self);
             op = add_input ''input'' input op;
             op = (case sampling of None \<Rightarrow> op | Some s \<Rightarrow> add_input ''sampling'' s op);
             output_features =
               map (\<lambda>f. \<lparr>feature_name = feature_name f,
                          feature_dtype = feature_dtype_of f,
                          feature_sampling = effective_sampling,
                          feature_creator = Some self\<rparr>)
                 (event_features input);
             op = add_output ''output''
                    \<lparr>event_features = output_features, event_sampling = effective_sampling,
                     event_creator = Some self\<rparr> op
         in case check op of Some e \<Rightarrow> Inl e | None \<Rightarrow> Inr (op, Suc self)))"

text \<open>\<open>MovingMinOperator\<close>: the window operator with the dtype rule of the subclass.\<close>

definition MovingMinOperator ::
  "(Operator \<Rightarrow> exn option) \<Rightarrow> obj_id \<Rightarrow> Event \<Rightarrow> real \<Rightarrow> Event option \<Rightarrow>
   exn + (Operator \<times> obj_id)" where
  "MovingMinOperator check next_id input window_length sampling =
     BaseWindowOperator check get_feature_dtype next_id input window_length sampling"

text \<open>
  Modelled from the spec: \<open>normalize_duration\<close> of \<open>core/data/duration.py\<close>, which is not
  among the sources. A duration is a number of seconds, taken as it is.
\<close>

definition normalize_duration :: "real \<Rightarrow> real" where
  "normalize_duration d = d"

text \<open>\<open>moving_min\<close>: the \<open>"output"\<close> node of the operator.\<close>

definition moving_min ::
  "(Operator \<Rightarrow> exn option) \<Rightarrow> obj_id \<Rightarrow> Event \<Rightarrow> real \<Rightarrow> Event option \<Rightarrow>
   exn + (Event \<times> obj_id)" where
  "moving_min check next_id input window_length sampling =
     (case MovingMinOperator check next_id input (normalize_duration window_length) sampling of
        Inl e \<Rightarrow> Inl e
      | Inr (op, next_id') \<Rightarrow>
          (case getitem (outputs op) ''output'' of
             Inl e \<Rightarrow> Inl e
           | Inr out \<Rightarrow> Inr (out, next_id')))"

section \<open>The moving-minimum window computation\<close>

text \<open>The minimum of a list of values; the missing value for the empty list.\<close>

definition min_of :: "'v::linorder list \<Rightarrow> 'v fval" where
  "min_of vs = (case vs of [] \<Rightarrow> NaN | v # rest \<Rightarrow> Val (fold min rest v))"

text \<open>
  The values in the window of a sampling timestamp \<open>t\<close>, as the docstring of
  \<open>moving_min\<close> has it: the non-missing values of the input whose timestamps lie in
  \<open>[t - window_length, t]\<close>. An input is a list of events \<open>(timestamp, value)\<close>.
\<close>

definition window_values :: "'t::linordered_ab_group_add \<Rightarrow> ('t \<times> 'v fval) list \<Rightarrow> 't \<Rightarrow> 'v list" where
  "window_values window_length input t =
     concat (map (\<lambda>(t', x). case x of NaN \<Rightarrow> [] | Val v \<Rightarrow>
                     if t - window_length \<le> t' \<and> t' \<le> t then [v] else [])
              input)"

text \<open>The brute-force recomputation: each sampling timestamp scans the whole input.\<close>

definition moving_min_naive ::
  "'t::linordered_ab_group_add \<Rightarrow> ('t \<times> 'v::linorder fval) list \<Rightarrow> 't list \<Rightarrow> 'v fval list" where
  "moving_min_naive window_length input sampling =
     map (\<lambda>t. min_of (window_values window_length input t)) sampling"

text \<open>
  Modelled from the spec: the evaluation of the moving-minimum operator on one feature of
  one index group (its numpy and native implementations are not among the sources). The
  spec requires the monotonic two-pointer technique: a pointer into the ascending input
  that only moves forward, and an increasing deque of candidate minima from which expired
  elements are evicted at the front and dominated elements at the back. The deque is a
  list with its front first. \<open>push\<close> pops from the back every candidate whose value is
  not below the new one and appends the new one; \<open>evict\<close> pops from the front every
  candidate older than the window; \<open>advance\<close> moves the input pointer past the events up
  to \<open>t\<close>, pushing the non-missing ones; \<open>slide\<close> visits the sampling timestamps in
  order and reads the minimum at the front.
\<close>

definition push :: "'t \<times> 'v::linorder \<Rightarrow> ('t \<times> 'v) list \<Rightarrow> ('t \<times> 'v) list" where
  "push x deque = rev (dropWhile (\<lambda>y. snd x \<le> snd y) (rev deque)) @ [x]"

definition evict :: "'t::linorder \<Rightarrow> ('t \<times> 'v) list \<Rightarrow> ('t \<times> 'v) list" where
  "evict lo deque = dropWhile (\<lambda>y. fst y < lo) deque"

fun advance ::
  "'t::linorder \<Rightarrow> ('t \<times> 'v::linorder fval) list \<Rightarrow> ('t \<times> 'v) list \<Rightarrow>
   ('t \<times> 'v fval) list \<times> ('t \<times> 'v) list" where
  "advance t [] deque = ([], deque)"
| "advance t ((t', x) # rest) deque =
     (if t' \<le> t
      then advance t rest (case x of NaN \<Rightarrow> deque | Val v \<Rightarrow> push (t', v) deque)
      else ((t', x) # rest, deque))"

fun slide ::
  "'t::linordered_ab_group_add \<Rightarrow> ('t \<times> 'v::linorder fval) list \<Rightarrow> ('t \<times> 'v) list \<Rightarrow>
   't list \<Rightarrow> 'v fval list" where
  "slide window_length remaining deque [] = []"
| "slide window_length remaining deque (t # sampling) =
     (case advance t remaining deque of
        (remaining', deque') \<Rightarrow>
          (case evict (t - window_length) deque' of
             [] \<Rightarrow> NaN # slide window_length remaining' [] sampling
           | front # candidates \<Rightarrow>
               Val (snd front) # slide window_length remaining' (front # candidates) sampling))"

definition moving_min_sliding ::
  "'t::linordered_ab_group_add \<Rightarrow> ('t \<times> 'v::linorder fval) list \<Rightarrow> 't list \<Rightarrow> 'v fval list" where
  "moving_min_sliding window_length input sampling = slide window_length input [] sampling"

text \<open>
  Notions of the correctness proof: the non-missing events of an input, and the
  invariant of the deque with respect to the events \<open>P\<close> pushed so far and a lower bound
  \<open>lo\<close> of the windows still to come: timestamps ascend, values strictly ascend, every
  candidate is a pushed event, and every pushed event not older than \<open>lo\<close> is dominated
  by a candidate that is not older and not larger.
\<close>

definition present :: "('t \<times> 'v fval) list \<Rightarrow> ('t \<times> 'v) list" where
  "present input = concat (map (\<lambda>(t, x). case x of NaN \<Rightarrow> [] | Val v \<Rightarrow> [(t, v)]) input)"

definition deque_inv :: "('t::linorder \<times> 'v::linorder) list \<Rightarrow> ('t \<times> 'v) list \<Rightarrow> 't \<Rightarrow> bool" where
  "deque_inv deque P lo \<longleftrightarrow>
     sorted (map fst deque) \<and> sorted_wrt (\<lambda>a b. snd a < snd b) deque \<and> set deque \<subseteq> set P \<and>
     (\<forall>p \<in> set P. lo \<le> fst p \<longrightarrow> (\<exists>q \<in> set deque. fst p \<le> fst q \<and> snd q \<le> snd p))"

section \<open>Conversion between tables and events (\<open>implementation/numpy/data/event.py\<close>)\<close>























section \<open>Properties of since-last\<close>



lemma since_last_loop_fail:
  "since_last_group cc s k d = Inl e \<Longrightarrow> (k, d) \<in> set items \<Longrightarrow>
   \<exists>e'. since_last_loop cc s items out = Inl e'"
  by (induction items arbitrary: out) (auto split: sum.splits)

lemma since_last_loop_data:
  "since_last_loop cc s items out = Inr out' \<Longrightarrow> distinct (map fst items) \<Longrightarrow>
   map_of (data out') k =
     (case map_of items k of
        None \<Rightarrow> map_of (data out) k
      | Some d \<Rightarrow> (case since_last_group cc s k d of Inl e \<Rightarrow> None | Inr v \<Rightarrow> Some v))"
proof (induction items arbitrary: out)
  case Nil
  then show ?case by simp
next
  case (Cons it items)
  obtain k' d' where it: "it = (k', d')" by (cases it)
  from Cons.prems(1) it obtain v where
    v: "since_last_group cc s k' d' = Inr v" and
    rest: "since_last_loop cc s items (setitem out k' v) = Inr out'"
    by (auto split: sum.splits)
  from Cons.prems(2) it have dist: "distinct (map fst items)" and notin: "k' \<notin> fst ` set items"
    by auto
  have ih: "map_of (data out') k =
     (case map_of items k of
        None \<Rightarrow> map_of (data (setitem out k' v)) k
      | Some d \<Rightarrow> (case since_last_group cc s k d of Inl e \<Rightarrow> None | Inr v \<Rightarrow> Some v))"
    by (rule Cons.IH [OF rest dist])
  show ?case
  proof (cases "k = k'")
    case True
    with notin have "map_of items k = None" by (simp add: map_of_eq_None_iff)
    with ih True v it show ?thesis by (simp add: setitem_def update_conv')
  next
    case False
    with ih it show ?thesis by (simp add: setitem_def update_conv' split: option.splits)
  qed
qed

lemma since_last_loop_ok:
  "(\<forall>(k, d) \<in> set items. \<exists>v. since_last_group cc s k d = Inr v) \<Longrightarrow>
   \<exists>out'. since_last_loop cc s items out = Inr out'"
  by (induction items arbitrary: out) (auto split: sum.splits)

lemma since_last_loop_schema:
  "since_last_loop cc s items out = Inr out' \<Longrightarrow> out' = out\<lparr>data := data out'\<rparr>"
proof (induction items arbitrary: out)
  case Nil
  then show ?case by simp
next
  case (Cons it items)
  obtain k d where it: "it = (k, d)" by (cases it)
  from Cons.prems it obtain v where
    rest: "since_last_loop cc s items (setitem out k v) = Inr out'"
    by (auto split: sum.splits)
  from Cons.IH [OF rest] show ?case by (simp add: setitem_def)
qed




lemma since_last_group_sampling:
  "since_last_group cc (Some s) k d =
     (case map_of (data s) k of
        None \<Rightarrow> Inl (KeyError [])
      | Some sd \<Rightarrow> Inr \<lparr>features = [cc (timestamps d) (timestamps sd)], timestamps = timestamps sd\<rparr>)"
  by (simp add: since_last_group_def getitem_def split: option.splits)

lemma since_last_loop_error:
  "since_last_loop cc (Some s) items out = Inl e \<Longrightarrow> e = KeyError []"
  by (induction items arbitrary: out)
     (auto simp: since_last_group_sampling split: sum.splits option.splits)

lemma since_last_call_sampling_ok:
  assumes "distinct (map fst (data input))"
    and "fst ` set (data input) \<subseteq> fst ` set (data s)"
  shows "group_output (since_last_call cc True input (Some s)) k =
     (case (map_of (data input) k, map_of (data s) k) of
        (Some d, Some sd) \<Rightarrow>
          Some \<lparr>features = [cc (timestamps d) (timestamps sd)], timestamps = timestamps sd\<rparr>
      | _ \<Rightarrow> None)"
proof -
  let ?out0 = "\<lparr>data = [], feature_names = [''since_last''],
                 index_names = index_names input,
                 is_unix_timestamp = is_unix_timestamp input\<rparr>"
  have "\<forall>(k, d) \<in> set (data input). \<exists>v. since_last_group cc (Some s) k d = Inr v"
  proof (clarify)
    fix k d assume "(k, d) \<in> set (data input)"
    then have "k \<in> fst ` set (data s)" using assms(2) by force
    then obtain sd where "map_of (data s) k = Some sd"
      by (metis map_of_eq_None_iff not_Some_eq)
    then show "\<exists>v. since_last_group cc (Some s) k d = Inr v"
      by (simp add: since_last_group_sampling)
  qed
  then have "\<exists>out'. since_last_loop cc (Some s) (data input) ?out0 = Inr out'"
    by (rule since_last_loop_ok)
  then obtain out' where out': "since_last_loop cc (Some s) (data input) ?out0 = Inr out'" ..
  from since_last_loop_data [OF out' assms(1), of k] out' show ?thesis
    by (simp add: group_output_def since_last_call_def iterindex_def since_last_group_sampling
        split: option.splits)
qed

lemma since_last_call_sampling_fail:
  assumes "\<not> fst ` set (data input) \<subseteq> fst ` set (data s)"
  shows "since_last_call cc True input (Some s) = Inl (KeyError [])"
proof -
  let ?out0 = "\<lparr>data = [], feature_names = [''since_last''],
                 index_names = index_names input,
                 is_unix_timestamp = is_unix_timestamp input\<rparr>"
  from assms obtain k d where kd: "(k, d) \<in> set (data input)" and "k \<notin> fst ` set (data s)"
    by force
  then have "map_of (data s) k = None"
    by (simp add: map_of_eq_None_iff)
  then have "since_last_group cc (Some s) k d = Inl (KeyError [])"
    by (simp add: since_last_group_sampling)
  from since_last_loop_fail [OF this kd]
  obtain e' where e': "since_last_loop cc (Some s) (data input) ?out0 = Inl e'" by blast
  with since_last_loop_error [OF e'] show ?thesis
    by (simp add: since_last_call_def iterindex_def)
qed

text \<open>
  Claim C7, as the code has it. With an explicit sampling the loop runs over the index
  groups of the input and looks each one up in the sampling. When every group of the
  input is a group of the sampling, the output has exactly the groups of the input, each
  with the sampling's timestamps of that group and the buffer the native function
  returns; a group that only the sampling has gets no output group. When some group of
  the input is absent from the sampling, the lookup raises \<open>KeyError\<close> and the call returns
  nothing.
\<close>

theorem since_last_sampling_groups:
  assumes "distinct (map fst (data input))"
  shows "if fst ` set (data input) \<subseteq> fst ` set (data s)
    then \<forall>k. group_output (since_last_call cc True input (Some s)) k =
      (case (map_of (data input) k, map_of (data s) k) of
         (Some d, Some sd) \<Rightarrow>
           Some \<lparr>features = [cc (timestamps d) (timestamps sd)], timestamps = timestamps sd\<rparr>
       | _ \<Rightarrow> None)
    else since_last_call cc True input (Some s) = Inl (KeyError [])"
proof (cases "fst ` set (data input) \<subseteq> fst ` set (data s)")
  case True
  with since_last_call_sampling_ok [OF assms True] show ?thesis by simp
next
  case False
  with since_last_call_sampling_fail [OF False] show ?thesis by simp
qed

theorem since_last_sampling_groups_witness:
  "group_output (since_last_call since_last_cc True events_u1 (Some sampling_u1_u2)) [''u1''] =
     Some \<lparr>features = [[NaN, Val 0, Val 5]], timestamps = [9, 12, 20]\<rparr> \<and>
   group_output (since_last_call since_last_cc True events_u1 (Some sampling_u1_u2)) [''u2''] = None \<and>
   since_last_call since_last_cc True events_u1 (Some sampling_u2) = Inl (KeyError [])"
proof -
  have d: "distinct (map fst (data events_u1))" by (simp add: example_events)
  have sub: "fst ` set (data events_u1) \<subseteq> fst ` set (data sampling_u1_u2)"
    by (simp add: example_events)
  have nsub: "\<not> fst ` set (data events_u1) \<subseteq> fst ` set (data sampling_u2)"
    by (simp add: example_events)
  from since_last_sampling_groups [OF d, of sampling_u1_u2 since_last_cc] sub
  have all: "\<forall>k. group_output (since_last_call since_last_cc True events_u1 (Some sampling_u1_u2)) k =
      (case (map_of (data events_u1) k, map_of (data sampling_u1_u2) k) of
         (Some d, Some sd) \<Rightarrow>
           Some \<lparr>features = [since_last_cc (timestamps d) (timestamps sd)], timestamps = timestamps sd\<rparr>
       | _ \<Rightarrow> None)"
    by simp
  from since_last_sampling_groups [OF d, of sampling_u2 since_last_cc] nsub
  have "since_last_call since_last_cc True events_u1 (Some sampling_u2) = Inl (KeyError [])"
    by simp
  moreover from spec [OF all, of "[''u1'']"]
  have "group_output (since_last_call since_last_cc True events_u1 (Some sampling_u1_u2)) [''u1''] =
     Some \<lparr>features = [[NaN, Val 0, Val 5]], timestamps = [9, 12, 20]\<rparr>"
    by (simp add: example_events since_last_cc_def)
  moreover from spec [OF all, of "[''u2'']"]
  have "group_output (since_last_call since_last_cc True events_u1 (Some sampling_u1_u2)) [''u2''] = None"
    by (simp add: example_events)
  ultimately show ?thesis by simp
qed

text \<open>
  The claim as stated fails: for the group \<open>u2\<close> that only the sampling has, there is
  no output group (rather than an all-missing buffer over the timestamps \<open>[4, 5]\<close>), and
  for the group \<open>u1\<close> that only the input has, the call raises instead of skipping the
  group.
\<close>

theorem since_last_sampling_only_group_counterexample:
  "group_output (since_last_call since_last_cc True events_none (Some sampling_u2)) [''u2''] = None \<and>
   since_last_call since_last_cc True events_u1 (Some events_none) = Inl (KeyError [])"
  by (simp add: group_output_def since_last_call_def iterindex_def since_last_group_def
      getitem_def example_events)





section \<open>Properties of the schema operators\<close>

text \<open>
  Claim C10. Constructing a calendar operator on any input node, when the inherited
  \<open>check()\<close> accepts it, gives an operator whose \<open>"event"\<close> output has exactly one feature:
  its name is the operator's \<open>output_feature_name\<close>, its dtype is \<open>INT32\<close>, and its sampling
  and the node's sampling are the \<open>Sampling\<close> object of the input node. No object but the
  operator is allocated (the next free identity moves by one). Nothing else in
  \<open>__init__\<close> can fail: the construction returns whenever \<open>check()\<close> accepts.
\<close>

theorem calendar_operator_output:
  "((\<forall>op. check op = None) \<longrightarrow>
      (\<exists>op. BaseCalendarOperator check name n sampling = Inr (op, Suc n))) \<and>
   (\<forall>op n'. BaseCalendarOperator check name n sampling = Inr (op, n') \<longrightarrow>
      n' = Suc n \<and>
      getitem (outputs op) ''event'' =
        Inr \<lparr>event_features =
               [\<lparr>feature_name = name, feature_dtype = INT32,
                 feature_sampling = event_sampling sampling, feature_creator = Some n\<rparr>],
             event_sampling = event_sampling sampling, event_creator = Some n\<rparr>)"
  by (auto simp: BaseCalendarOperator_def Let_def Operator_init_def add_input_def
      add_output_def getitem_def split: option.splits)

theorem calendar_operator_output_witness:
  "\<exists>op. BaseCalendarOperator check_accepts ''calendar_hour'' 1 event_ab = Inr (op, 2) \<and>
     getitem (outputs op) ''event'' =
       Inr \<lparr>event_features =
              [\<lparr>feature_name = ''calendar_hour'', feature_dtype = INT32,
                feature_sampling = sampling_users, feature_creator = Some 1\<rparr>],
            event_sampling = sampling_users, event_creator = Some 1\<rparr>"
proof -
  have acc: "\<forall>op. check_accepts op = None" by (simp add: check_accepts_def)
  from calendar_operator_output [of check_accepts "''calendar_hour''" 1 event_ab] acc
  obtain op where op: "BaseCalendarOperator check_accepts ''calendar_hour'' 1 event_ab = Inr (op, Suc 1)"
    by blast
  with calendar_operator_output [of check_accepts "''calendar_hour''" 1 event_ab]
  have "getitem (outputs op) ''event'' =
        Inr \<lparr>event_features =
               [\<lparr>feature_name = ''calendar_hour'', feature_dtype = INT32,
                 feature_sampling = event_sampling event_ab, feature_creator = Some 1\<rparr>],
             event_sampling = event_sampling event_ab, event_creator = Some 1\<rparr>"
    by blast
  with op show ?thesis by (simp add: event_ab_def)
qed







lemma falsy_value: "\<not> truthy v \<longleftrightarrow> v = PyStr [] \<or> v = PyInt 0 \<or> v = PyNone"
  by (cases v) auto


















section \<open>Properties of the moving-minimum operator\<close>

lemma present_append: "present (xs @ ys) = present xs @ present ys"
  by (simp add: present_def)

lemma present_Cons:
  "present ((t, x) # es) = (case x of NaN \<Rightarrow> [] | Val v \<Rightarrow> [(t, v)]) @ present es"
  by (simp add: present_def)

lemma set_present_fst: "p \<in> set (present es) \<Longrightarrow> fst p \<in> fst ` set es"
proof (induction es)
  case Nil
  then show ?case by (simp add: present_def)
next
  case (Cons e es)
  obtain t x where e: "e = (t, x)" by (cases e)
  from Cons e show ?case by (cases x) (auto simp: present_Cons)
qed

lemma window_values_present:
  "window_values w es t = map snd (filter (\<lambda>p. t - w \<le> fst p \<and> fst p \<le> t) (present es))"
  by (induction es) (auto simp: window_values_def present_def split: fval.splits)

lemma min_of_Min: "vs \<noteq> [] \<Longrightarrow> min_of vs = Val (Min (set vs))"
proof (cases vs)
  case Nil
  moreover assume "vs \<noteq> []"
  ultimately show ?thesis by simp
next
  case (Cons v rest)
  have "fold min rest v = Min (set (v # rest))" by (rule Min.set_eq_fold [symmetric])
  with Cons show ?thesis by (simp add: min_of_def)
qed

lemma dropWhile_filter_sorted:
  assumes "sorted_wrt R xs" and "\<And>a b. R a b \<Longrightarrow> \<not> P a \<Longrightarrow> \<not> P b"
  shows "dropWhile P xs = filter (\<lambda>y. \<not> P y) xs"
  using assms(1)
proof (induction xs)
  case Nil
  then show ?case by simp
next
  case (Cons a xs)
  show ?case
  proof (cases "P a")
    case True
    with Cons show ?thesis by simp
  next
    case False
    with Cons.prems assms(2) have "\<forall>b \<in> set xs. \<not> P b" by auto
    then have "filter (\<lambda>y. \<not> P y) xs = xs" by (simp add: filter_id_conv)
    with False show ?thesis by simp
  qed
qed

lemma rev_dropWhile_rev_sorted:
  assumes "sorted_wrt R xs" and "\<And>a b. R a b \<Longrightarrow> Q b \<Longrightarrow> Q a"
  shows "rev (dropWhile (\<lambda>y. \<not> Q y) (rev xs)) = filter Q xs"
  using assms(1)
proof (induction xs rule: rev_induct)
  case Nil
  then show ?case by simp
next
  case (snoc a xs)
  then have sx: "sorted_wrt R xs" and before: "\<forall>b \<in> set xs. R b a"
    by (simp_all add: sorted_wrt_append)
  show ?case
  proof (cases "Q a")
    case True
    with before assms(2) have "\<forall>b \<in> set xs. Q b" by blast
    then have "filter Q xs = xs" by (simp add: filter_id_conv)
    with True show ?thesis by simp
  next
    case False
    with snoc.IH [OF sx] show ?thesis by simp
  qed
qed

lemma push_filter:
  assumes "sorted_wrt (\<lambda>a b. snd a < snd b) deque"
  shows "push x deque = filter (\<lambda>y. snd y < snd x) deque @ [x]"
proof -
  have "rev (dropWhile (\<lambda>y. \<not> snd y < snd x) (rev deque)) = filter (\<lambda>y. snd y < snd x) deque"
    by (rule rev_dropWhile_rev_sorted [OF assms]) auto
  then show ?thesis by (simp add: push_def not_less)
qed

lemma evict_filter:
  assumes "sorted (map fst deque)"
  shows "evict lo deque = filter (\<lambda>y. lo \<le> fst y) deque"
proof -
  from assms have "sorted_wrt (\<lambda>a b. fst a \<le> fst b) deque"
    by (simp add: sorted_map)
  then have "dropWhile (\<lambda>y. fst y < lo) deque = filter (\<lambda>y. \<not> fst y < lo) deque"
    by (rule dropWhile_filter_sorted) auto
  then show ?thesis by (simp add: evict_def not_less)
qed

lemma deque_inv_empty: "deque_inv [] [] lo"
  by (simp add: deque_inv_def)

lemma deque_inv_push:
  assumes inv: "deque_inv deque P lo" and le: "\<forall>p \<in> set P. fst p \<le> fst x"
  shows "deque_inv (push x deque) (P @ [x]) lo"
proof -
  from inv have ts: "sorted (map fst deque)" and vs: "sorted_wrt (\<lambda>a b. snd a < snd b) deque"
    and sub: "set deque \<subseteq> set P"
    and dom: "\<forall>p \<in> set P. lo \<le> fst p \<longrightarrow> (\<exists>q \<in> set deque. fst p \<le> fst q \<and> snd q \<le> snd p)"
    by (simp_all add: deque_inv_def)
  let ?keep = "filter (\<lambda>y. snd y < snd x) deque"
  have eq: "push x deque = ?keep @ [x]" by (rule push_filter [OF vs])
  from sub le have older: "\<forall>y \<in> set deque. fst y \<le> fst x" by blast
  have 1: "sorted (map fst (?keep @ [x]))"
    using ts older by (auto simp: sorted_append sorted_filter)
  have 2: "sorted_wrt (\<lambda>a b. snd a < snd b) (?keep @ [x])"
    using vs by (auto simp: sorted_wrt_append sorted_wrt_filter)
  have 3: "set (?keep @ [x]) \<subseteq> set (P @ [x])"
    using sub by auto
  have 4: "\<forall>p \<in> set (P @ [x]). lo \<le> fst p \<longrightarrow>
      (\<exists>q \<in> set (?keep @ [x]). fst p \<le> fst q \<and> snd q \<le> snd p)"
  proof (intro ballI impI)
    fix p assume p: "p \<in> set (P @ [x])" and lo: "lo \<le> fst p"
    show "\<exists>q \<in> set (?keep @ [x]). fst p \<le> fst q \<and> snd q \<le> snd p"
    proof (cases "p \<in> set P")
      case False
      with p have "p = x" by simp
      then show ?thesis by simp
    next
      case True
      with dom lo obtain q where q: "q \<in> set deque" "fst p \<le> fst q" "snd q \<le> snd p" by blast
      show ?thesis
      proof (cases "snd q < snd x")
        case True
        with q show ?thesis by auto
      next
        case False
        with q have "snd x \<le> snd p" by simp
        moreover from le \<open>p \<in> set P\<close> have "fst p \<le> fst x" by simp
        ultimately show ?thesis by simp
      qed
    qed
  qed
  from 1 2 3 4 show ?thesis unfolding eq deque_inv_def by blast
qed

lemma deque_inv_evict:
  assumes inv: "deque_inv deque P lo" and le: "lo \<le> lo'"
  shows "deque_inv (evict lo' deque) P lo'" and "\<forall>q \<in> set (evict lo' deque). lo' \<le> fst q"
proof -
  from inv have ts: "sorted (map fst deque)" and vs: "sorted_wrt (\<lambda>a b. snd a < snd b) deque"
    and sub: "set deque \<subseteq> set P"
    and dom: "\<forall>p \<in> set P. lo \<le> fst p \<longrightarrow> (\<exists>q \<in> set deque. fst p \<le> fst q \<and> snd q \<le> snd p)"
    by (simp_all add: deque_inv_def)
  note eq = evict_filter [OF ts, of lo']
  show "\<forall>q \<in> set (evict lo' deque). lo' \<le> fst q" by (simp add: eq)
  have 4: "\<forall>p \<in> set P. lo' \<le> fst p \<longrightarrow>
      (\<exists>q \<in> set (filter (\<lambda>y. lo' \<le> fst y) deque). fst p \<le> fst q \<and> snd q \<le> snd p)"
  proof (intro ballI impI)
    fix p assume p: "p \<in> set P" and lo': "lo' \<le> fst p"
    with le have "lo \<le> fst p" by simp
    with dom p obtain q where q: "q \<in> set deque" "fst p \<le> fst q" "snd q \<le> snd p" by blast
    with lo' have "lo' \<le> fst q" by simp
    with q show "\<exists>q \<in> set (filter (\<lambda>y. lo' \<le> fst y) deque). fst p \<le> fst q \<and> snd q \<le> snd p"
      by (intro bexI [of _ q]) simp_all
  qed
  show "deque_inv (evict lo' deque) P lo'"
    unfolding eq deque_inv_def
    using ts vs sub 4 by (auto simp: sorted_filter sorted_wrt_filter)
qed

lemma deque_front_min:
  assumes inv: "deque_inv deque P lo" and fresh: "\<forall>q \<in> set deque. lo \<le> fst q"
    and upto: "\<forall>p \<in> set P. fst p \<le> t"
  shows "min_of (map snd (filter (\<lambda>p. lo \<le> fst p \<and> fst p \<le> t) P)) =
         (case deque of [] \<Rightarrow> NaN | front # candidates \<Rightarrow> Val (snd front))"
proof -
  from inv have vs: "sorted_wrt (\<lambda>a b. snd a < snd b) deque"
    and sub: "set deque \<subseteq> set P"
    and dom: "\<forall>p \<in> set P. lo \<le> fst p \<longrightarrow> (\<exists>q \<in> set deque. fst p \<le> fst q \<and> snd q \<le> snd p)"
    by (simp_all add: deque_inv_def)
  let ?win = "filter (\<lambda>p. lo \<le> fst p \<and> fst p \<le> t) P"
  show ?thesis
  proof (cases deque)
    case Nil
    with dom have "?win = []" by (auto simp: filter_empty_conv)
    with Nil show ?thesis by (simp add: min_of_def)
  next
    case (Cons front candidates)
    with sub fresh upto have front: "front \<in> set ?win" by auto
    then have "?win \<noteq> []" by (cases ?win) simp_all
    then have ne: "map snd ?win \<noteq> []" by simp
    have least: "snd front \<le> v" if "v \<in> set (map snd ?win)" for v
    proof -
      from that obtain p where p: "p \<in> set P" "lo \<le> fst p" "v = snd p" by auto
      with dom obtain q where q: "q \<in> set deque" "snd q \<le> snd p" by blast
      from vs Cons q(1) have "snd front \<le> snd q" by auto
      with q p show ?thesis by simp
    qed
    have "Min (set (map snd ?win)) = snd front"
    proof (rule Min_eqI)
      show "finite (set (map snd ?win))" by simp
      show "snd front \<le> y" if "y \<in> set (map snd ?win)" for y using that by (rule least)
      from front show "snd front \<in> set (map snd ?win)" by (simp only: set_map) (rule imageI)
    qed
    with ne Cons show ?thesis by (simp add: min_of_Min)
  qed
qed

lemma advance_inv:
  assumes "advance t rem deque = (rem', deque')"
    and "sorted (map fst rem)"
    and "deque_inv deque (present cons) lo"
    and "\<forall>c \<in> set cons. \<forall>e \<in> set rem. fst c \<le> fst e"
  shows "\<exists>taken. rem = taken @ rem' \<and> deque_inv deque' (present (cons @ taken)) lo \<and>
           (\<forall>e \<in> set taken. fst e \<le> t) \<and> (\<forall>e \<in> set rem'. t < fst e)"
  using assms
proof (induction rem arbitrary: deque cons)
  case Nil
  then show ?case by simp
next
  case (Cons e rest)
  obtain t' x where e: "e = (t', x)" by (cases e)
  show ?case
  proof (cases "t' \<le> t")
    case False
    with Cons.prems(1) e have "rem' = e # rest" "deque' = deque" by simp_all
    moreover from Cons.prems(2) e False have "\<forall>e' \<in> set (e # rest). t < fst e'" by auto
    ultimately show ?thesis using Cons.prems(3) by simp
  next
    case True
    let ?deque1 = "case x of NaN \<Rightarrow> deque | Val v \<Rightarrow> push (t', v) deque"
    from Cons.prems(1) e True have adv: "advance t rest ?deque1 = (rem', deque')" by simp
    from Cons.prems(2) have sorted_rest: "sorted (map fst rest)" by simp
    have inv1: "deque_inv ?deque1 (present (cons @ [e])) lo"
    proof (cases x)
      case NaN
      with Cons.prems(3) e show ?thesis by (simp add: present_append present_Cons present_def)
    next
      case (Val v)
      have "\<forall>p \<in> set (present cons). fst p \<le> fst (t', v)"
      proof
        fix p assume "p \<in> set (present cons)"
        then have "fst p \<in> fst ` set cons" by (rule set_present_fst)
        with Cons.prems(4) e show "fst p \<le> fst (t', v)" by auto
      qed
      from deque_inv_push [OF Cons.prems(3) this] Val e show ?thesis
        by (simp add: present_append present_Cons present_def)
    qed
    have order1: "\<forall>c \<in> set (cons @ [e]). \<forall>e' \<in> set rest. fst c \<le> fst e'"
      using Cons.prems(2,4) by auto
    from Cons.IH [OF adv sorted_rest inv1 order1]
    obtain taken where taken: "rest = taken @ rem'"
      "deque_inv deque' (present ((cons @ [e]) @ taken)) lo"
      "\<forall>e \<in> set taken. fst e \<le> t" "\<forall>e \<in> set rem'. t < fst e"
      by blast
    show ?thesis
    proof (intro exI [of _ "e # taken"] conjI)
      from taken(1) show "e # rest = (e # taken) @ rem'" by simp
      from taken(2) show "deque_inv deque' (present (cons @ e # taken)) lo" by simp
      from taken(3) True e show "\<forall>e \<in> set (e # taken). fst e \<le> t" by simp
      from taken(4) show "\<forall>e \<in> set rem'. t < fst e" .
    qed
  qed
qed

lemma slide_correct:
  assumes "sorted (map fst rem)" and "sorted sampling"
    and "deque_inv deque (present cons) lo"
    and "\<forall>c \<in> set cons. \<forall>e \<in> set rem. fst c \<le> fst e"
    and "\<forall>t \<in> set sampling. lo \<le> t - w"
    and "\<forall>t \<in> set sampling. \<forall>c \<in> set cons. fst c \<le> t"
  shows "slide w rem deque sampling =
           map (\<lambda>t. min_of (window_values w (cons @ rem) t)) sampling"
  using assms
proof (induction sampling arbitrary: rem deque cons lo)
  case Nil
  then show ?case by simp
next
  case (Cons t sampling)
  obtain rem' deque1 where adv: "advance t rem deque = (rem', deque1)"
    by (cases "advance t rem deque")
  from advance_inv [OF adv Cons.prems(1,3,4)]
  obtain taken where taken: "rem = taken @ rem'"
    and inv1: "deque_inv deque1 (present (cons @ taken)) lo"
    and upto: "\<forall>e \<in> set taken. fst e \<le> t" and later: "\<forall>e \<in> set rem'. t < fst e"
    by blast
  let ?deque2 = "evict (t - w) deque1"
  from Cons.prems(5) have lo: "lo \<le> t - w" by simp
  note inv2 = deque_inv_evict [OF inv1 lo]
  have seen: "\<forall>p \<in> set (present (cons @ taken)). fst p \<le> t"
  proof
    fix p assume "p \<in> set (present (cons @ taken))"
    then have "fst p \<in> fst ` set (cons @ taken)" by (rule set_present_fst)
    with upto Cons.prems(6) show "fst p \<le> t" by auto
  qed
  have unseen: "filter (\<lambda>p. t - w \<le> fst p \<and> fst p \<le> t) (present rem') = []"
  proof -
    have "\<not> fst p \<le> t" if "p \<in> set (present rem')" for p
    proof -
      from that have "fst p \<in> fst ` set rem'" by (rule set_present_fst)
      with later show ?thesis by auto
    qed
    then show ?thesis by (auto simp: filter_empty_conv)
  qed
  have here: "min_of (window_values w (cons @ rem) t) =
      (case ?deque2 of [] \<Rightarrow> NaN | front # candidates \<Rightarrow> Val (snd front))"
  proof -
    have "window_values w (cons @ rem) t =
        map snd (filter (\<lambda>p. t - w \<le> fst p \<and> fst p \<le> t) (present (cons @ taken)))"
      using unseen by (simp add: window_values_present taken present_append)
    with deque_front_min [OF inv2(1) inv2(2) seen] show ?thesis by simp
  qed
  have rest: "slide w rem' ?deque2 sampling =
      map (\<lambda>t. min_of (window_values w (cons @ rem) t)) sampling"
  proof -
    from Cons.prems(1) taken have 1: "sorted (map fst rem')" by (simp add: sorted_append)
    from Cons.prems(2) have 2: "sorted sampling" and tle: "\<forall>t' \<in> set sampling. t \<le> t'" by simp_all
    have 4: "\<forall>c \<in> set (cons @ taken). \<forall>e \<in> set rem'. fst c \<le> fst e"
    proof (intro ballI)
      fix c e assume c: "c \<in> set (cons @ taken)" and e: "e \<in> set rem'"
      show "fst c \<le> fst e"
      proof (cases "c \<in> set cons")
        case True
        with Cons.prems(4) e taken show ?thesis by simp
      next
        case False
        with c upto have "fst c \<le> t" by simp
        with later e show ?thesis by force
      qed
    qed
    from tle have 5: "\<forall>t' \<in> set sampling. t - w \<le> t' - w" by simp
    have 6: "\<forall>t' \<in> set sampling. \<forall>c \<in> set (cons @ taken). fst c \<le> t'"
    proof (intro ballI)
      fix t' c assume t': "t' \<in> set sampling" and c: "c \<in> set (cons @ taken)"
      from c upto Cons.prems(6) have "fst c \<le> t" by auto
      with tle t' show "fst c \<le> t'" by force
    qed
    from Cons.IH [OF 1 2 inv2(1) 4 5 6] taken show ?thesis by simp
  qed
  from adv here rest show ?case
    by (cases ?deque2) simp_all
qed

text \<open>
  Claim C2. For one feature of one index group, with the input events and the sampling
  timestamps ascending, the monotonic-deque evaluation gives at each sampling timestamp
  \<open>t\<close> the minimum of the non-missing input values with timestamps in the closed
  interval \<open>[t - window_length, t]\<close>, and the missing value when there is none: it equals
  the brute-force recomputation. With window length 2, timestamps \<open>[1, 2, 3, 5]\<close> and
  values \<open>[5, 3, 8, 1]\<close>, sampled at the same timestamps, the result is \<open>[5, 3, 3, 1]\<close>.
\<close>

theorem moving_min_closed_window:
  assumes "sorted (map fst input)" and "sorted sampling"
  shows "moving_min_sliding window_length input sampling =
           moving_min_naive window_length input sampling \<and>
         length (moving_min_sliding window_length input sampling) = length sampling \<and>
         (\<forall>i < length sampling.
            moving_min_sliding window_length input sampling ! i =
              (if window_values window_length input (sampling ! i) = [] then NaN
               else Val (Min (set (window_values window_length input (sampling ! i))))))"
proof -
  let ?lo = "case sampling of [] \<Rightarrow> 0 | t # ts \<Rightarrow> t - window_length"
  have lo: "\<forall>t \<in> set sampling. ?lo \<le> t - window_length"
    using assms(2) by (cases sampling) auto
  have "slide window_length input [] sampling =
      map (\<lambda>t. min_of (window_values window_length ([] @ input) t)) sampling"
    by (rule slide_correct [OF assms(1,2) _ _ lo]) (simp_all add: deque_inv_def present_def)
  then have eq: "moving_min_sliding window_length input sampling =
           moving_min_naive window_length input sampling"
    by (simp add: moving_min_sliding_def moving_min_naive_def)
  moreover have "length (moving_min_naive window_length input sampling) = length sampling"
    by (simp add: moving_min_naive_def)
  moreover have "\<forall>i < length sampling.
            moving_min_naive window_length input sampling ! i =
              (if window_values window_length input (sampling ! i) = [] then NaN
               else Val (Min (set (window_values window_length input (sampling ! i)))))"
    by (simp add: moving_min_naive_def min_of_Min) (simp add: min_of_def)
  ultimately show ?thesis by simp
qed

theorem moving_min_closed_window_witness:
  "moving_min_sliding (2::int) [(1, Val (5::int)), (2, Val 3), (3, Val 8), (5, Val 1)] [1, 2, 3, 5] =
     [Val 5, Val 3, Val 3, Val 1] \<and>
   moving_min_naive (2::int) [(1, Val (5::int)), (2, Val 3), (3, Val 8), (5, Val 1)] [1, 2, 3, 5] =
     [Val 5, Val 3, Val 3, Val 1] \<and>
   window_values (2::int) [(1, Val (5::int)), (2, Val 3), (3, Val 8), (5, Val 1)] 5 = [8, 1]"
proof -
  let ?input = "[(1::int, Val (5::int)), (2, Val 3), (3, Val 8), (5, Val 1)]"
  have s1: "sorted (map fst ?input)" and s2: "sorted [1, 2, 3, 5 :: int]" by simp_all
  have naive: "moving_min_naive 2 ?input [1, 2, 3, 5] = [Val 5, Val 3, Val 3, Val 1]"
    by (simp add: moving_min_naive_def window_values_def min_of_def)
  moreover from moving_min_closed_window [OF s1 s2, of 2] naive
  have "moving_min_sliding 2 ?input [1, 2, 3, 5] = [Val 5, Val 3, Val 3, Val 1]" by simp
  moreover have "window_values 2 ?input 5 = [8, 1]"
    by (simp add: window_values_def)
  ultimately show ?thesis by simp
qed

lemma moving_min_unfold:
  "moving_min check n input w sampling =
     (if w \<le> 0 then Inl InvalidArgument
      else if (case sampling of
                 None \<Rightarrow> False
               | Some s \<Rightarrow> index_levels (event_sampling s) \<noteq> index_levels (event_sampling input))
      then Inl SchemaError
      else
        (let effective_sampling =
               (case sampling of None \<Rightarrow> event_sampling input | Some s \<Rightarrow> event_sampling s);
             out = \<lparr>event_features =
                      map (\<lambda>f. \<lparr>feature_name = feature_name f,
                                 feature_dtype = get_feature_dtype f,
                                 feature_sampling = effective_sampling,
                                 feature_creator = Some n\<rparr>)
                        (event_features input),
                    event_sampling = effective_sampling, event_creator = Some n\<rparr>;
             op = \<lparr>operator_id = n,
                   attributes = [(''window_length'', FLOAT_64 w)],
                   inputs = (case sampling of
                               None \<Rightarrow> [(''input'', input)]
                             | Some s \<Rightarrow> [(''input'', input), (''sampling'', s)]),
                   outputs = [(''output'', out)]\<rparr>
         in case check op of Some e \<Rightarrow> Inl e | None \<Rightarrow> Inr (out, Suc n)))"
  by (simp add: moving_min_def MovingMinOperator_def BaseWindowOperator_def normalize_duration_def
      Operator_init_def add_attribute_def add_input_def add_output_def getitem_def Let_def
      split: option.splits)

text \<open>
  Claim C8. Whenever \<open>moving_min\<close> returns, its output node has one feature per feature
  of the input, in the same order, each with the dtype of that input feature (which is
  what \<open>get_feature_dtype\<close> returns). It returns whenever the window length is positive,
  the index levels of a given \<open>sampling\<close> are those of the input, and \<open>check()\<close> accepts.
\<close>

theorem moving_min_keeps_dtype:
  "((\<forall>op. check op = None) \<and> 0 < w \<and>
    (\<forall>s. sampling = Some s \<longrightarrow>
         index_levels (event_sampling s) = index_levels (event_sampling input)) \<longrightarrow>
    (\<exists>out. moving_min check n input w sampling = Inr (out, Suc n))) \<and>
   (\<forall>out n'. moving_min check n input w sampling = Inr (out, n') \<longrightarrow>
      length (event_features out) = length (event_features input) \<and>
      map feature_dtype (event_features out) = map feature_dtype (event_features input) \<and>
      (\<forall>i < length (event_features input).
         feature_dtype (event_features out ! i) = get_feature_dtype (event_features input ! i) \<and>
         get_feature_dtype (event_features input ! i) = feature_dtype (event_features input ! i)))"
proof -
  have 1: "(\<forall>op. check op = None) \<and> 0 < w \<and>
    (\<forall>s. sampling = Some s \<longrightarrow>
         index_levels (event_sampling s) = index_levels (event_sampling input)) \<longrightarrow>
    (\<exists>out. moving_min check n input w sampling = Inr (out, Suc n))"
    unfolding moving_min_unfold by (cases sampling) (simp_all add: Let_def)
  have 2: "length (event_features out) = length (event_features input) \<and>
      map feature_dtype (event_features out) = map feature_dtype (event_features input) \<and>
      (\<forall>i < length (event_features input).
         feature_dtype (event_features out ! i) = get_feature_dtype (event_features input ! i) \<and>
         get_feature_dtype (event_features input ! i) = feature_dtype (event_features input ! i))"
    if "moving_min check n input w sampling = Inr (out, n')" for out n'
    using that unfolding moving_min_unfold
    by (auto simp: Let_def get_feature_dtype_def comp_def split: if_splits option.splits)
  from 1 2 show ?thesis by blast
qed

theorem moving_min_keeps_dtype_witness:
  "\<exists>out. moving_min check_accepts 3 event_ab 2 None = Inr (out, 4) \<and>
     map feature_dtype (event_features out) = [FLOAT64, INT32]"
proof -
  have acc: "\<forall>op. check_accepts op = None" by (simp add: check_accepts_def)
  from moving_min_keeps_dtype [of check_accepts 2 None event_ab 3] acc
  obtain out where out: "moving_min check_accepts 3 event_ab 2 None = Inr (out, Suc 3)"
    by auto
  with moving_min_keeps_dtype [of check_accepts 2 None event_ab 3]
  have "map feature_dtype (event_features out) = map feature_dtype (event_features event_ab)"
    by blast
  then have "map feature_dtype (event_features out) = [FLOAT64, INT32]"
    by (simp add: example_schema)
  with out show ?thesis by auto
qed

section \<open>Properties of the conversion between tables and events\<close>























end
